theory Spec2Isabelle
  imports Main
begin

section \<open>Python strings\<close>

text \<open>
  A Python \<open>str\<close> is a sequence of Unicode code points, and \<open>len\<close>, slicing and
  \<open>startswith\<close> count code points. The model is a list of natural numbers; ASCII
  literals are written through \<open>ustr\<close>.
\<close>

type_synonym codepoint = nat
type_synonym ustr = "codepoint list"

abbreviation ch :: "char \<Rightarrow> codepoint" where
  "ch c \<equiv> of_char c"

definition ustr :: "string \<Rightarrow> ustr" where
  "ustr s = map of_char s"

text \<open>
  The exceptions the modelled code can meet. All of them derive from \<open>Exception\<close>, so
  both \<open>except:\<close> and \<open>except Exception\<close> catch them; \<open>GeneratorError\<close> stands for
  whatever transport or backend failure the generator raises.
\<close>

datatype py_error = ValueError | IndexError | TypeError | GeneratorError

text \<open>
  The characters \<open>str.strip()\<close> removes and the regex class \<open>\s\<close> matches on a
  \<open>str\<close> pattern: CPython's \<open>Py_UNICODE_ISSPACE\<close>.
\<close>

definition py_isspace :: "codepoint \<Rightarrow> bool" where
  "py_isspace c \<longleftrightarrow>
     (9 \<le> c \<and> c \<le> 13) \<or> (28 \<le> c \<and> c \<le> 32) \<or> c = 133 \<or> c = 160 \<or> c = 5760 \<or>
     (8192 \<le> c \<and> c \<le> 8202) \<or> c = 8232 \<or> c = 8233 \<or> c = 8239 \<or> c = 8287 \<or>
     c = 12288"

definition lstrip_chars :: "(codepoint \<Rightarrow> bool) \<Rightarrow> ustr \<Rightarrow> ustr" where
  "lstrip_chars P s = dropWhile P s"

definition rstrip_chars :: "(codepoint \<Rightarrow> bool) \<Rightarrow> ustr \<Rightarrow> ustr" where
  "rstrip_chars P s = rev (dropWhile P (rev s))"

definition strip_chars :: "(codepoint \<Rightarrow> bool) \<Rightarrow> ustr \<Rightarrow> ustr" where
  "strip_chars P s = rstrip_chars P (lstrip_chars P s)"

definition py_strip :: "ustr \<Rightarrow> ustr" where
  "py_strip s = strip_chars py_isspace s"

definition startswith :: "ustr \<Rightarrow> ustr \<Rightarrow> bool" where
  "startswith s p \<longleftrightarrow> take (length p) s = p"

text \<open>\<open>s.index(c)\<close> raises \<open>ValueError\<close> when \<open>c\<close> does not occur.\<close>

definition py_index :: "ustr \<Rightarrow> codepoint \<Rightarrow> py_error + nat" where
  "py_index s c =
     (if c \<in> set s then Inr (length (takeWhile (\<lambda>x. x \<noteq> c) s)) else Inl ValueError)"

text \<open>
  \<open>re.split\<close> on a one-character class such as \<open>[.?!]\<close>: every matching character
  splits, so neighbouring separators leave an empty piece between them.
\<close>

fun split_where :: "(codepoint \<Rightarrow> bool) \<Rightarrow> ustr \<Rightarrow> ustr list" where
  "split_where P [] = [[]]"
| "split_where P (x # xs) =
     (if P x then [] # split_where P xs
      else (case split_where P xs of
              [] \<Rightarrow> [[x]]
            | p # ps \<Rightarrow> (x # p) # ps))"

text \<open>\<open>s.split(c)\<close> for a one-character separator.\<close>

definition py_split :: "codepoint \<Rightarrow> ustr \<Rightarrow> ustr list" where
  "py_split c s = split_where (\<lambda>x. x = c) s"

text \<open>\<open>s.split(c, 1)[-1]\<close>: the text after the first occurrence, or all of it.\<close>

definition split_once_last :: "codepoint \<Rightarrow> ustr \<Rightarrow> ustr" where
  "split_once_last c s = (if c \<in> set s then tl (dropWhile (\<lambda>x. x \<noteq> c) s) else s)"


section \<open>AnswerNormalizer: \<open>clean.py\<close>\<close>

definition bad_starts :: "ustr list" where
  "bad_starts = map ustr
     [''According to the provided information'', ''According to the reference'',
      ''According to'', ''Based on the information'',
      ''Based on the reference'', ''Based on'', ''From the information'',
      ''From the reference'',
      ''The provided information'', ''The reference shows'', ''The information shows'',
      ''The search results show'',
      ''Here is'', ''Here are'', ''This is'', ''This'', ''That'', ''The'',
      ''The answer is'', ''Answer is'', ''Answer:'', ''Answer:'',
      ''It is:'', ''It is'', ''It:'', ''Is:'', ''Is'',
      ''Should be'', ''Could be'', ''Might be'']"

text \<open>Stage 1: the loop over \<open>bad_starts\<close> with its \<open>break\<close> at the first hit.\<close>

fun strip_bad_start :: "ustr list \<Rightarrow> ustr \<Rightarrow> ustr" where
  "strip_bad_start [] answer = answer"
| "strip_bad_start (bad # rest) answer =
     (if startswith answer bad then py_strip (drop (length bad) answer)
      else strip_bad_start rest answer)"

text \<open>Stage 2: \<open>if ':' in answer and answer.index(':') < 15\<close>.\<close>

definition colon_split :: "ustr \<Rightarrow> py_error + ustr" where
  "colon_split answer =
     (if ch CHR '':'' \<in> set answer then
        (case py_index answer (ch CHR '':'') of
           Inl e \<Rightarrow> Inl e
         | Inr i \<Rightarrow>
             Inr (if i < 15 then py_strip (split_once_last (ch CHR '':'') answer)
                  else answer))
      else Inr answer)"

text \<open>Stage 3: \<open>answer.strip('"\'')\<close>.\<close>

definition is_quote :: "codepoint \<Rightarrow> bool" where
  "is_quote c \<longleftrightarrow> c = 34 \<or> c = 39"

text \<open>Stage 4: the loop over the delimiters, leaving at the first long enough clause.\<close>

definition delimiters :: "codepoint list" where
  "delimiters = [ch CHR '','', ch CHR ''.'', 10, ch CHR '';'']"

fun first_clause :: "codepoint list \<Rightarrow> ustr \<Rightarrow> ustr" where
  "first_clause [] answer = answer"
| "first_clause (delimiter # rest) answer =
     (if delimiter \<in> set answer then
        (let first = py_strip (hd (py_split delimiter answer))
         in if length first > 2 then first else first_clause rest answer)
      else first_clause rest answer)"

text \<open>Stage 5: \<open>answer.rstrip('.,;!?')\<close>.\<close>

definition is_end_punct :: "codepoint \<Rightarrow> bool" where
  "is_end_punct c \<longleftrightarrow> c \<in> set (ustr ''.,;!?'')"

definition clean_answer_aggressive :: "ustr \<Rightarrow> py_error + ustr" where
  "clean_answer_aggressive answer =
     (if answer = [] then Inr []
      else
        let original = answer;
            answer = strip_bad_start bad_starts answer
        in case colon_split answer of
             Inl e \<Rightarrow> Inl e
           | Inr answer \<Rightarrow>
               let answer = strip_chars is_quote answer;
                   answer = first_clause delimiters answer;
                   answer = rstrip_chars is_end_punct answer;
                   answer = (if length answer > 30 then take 30 answer else answer);
                   answer = py_strip answer
               in Inr (if answer \<noteq> [] then answer else take 20 original))"


section \<open>Regular expressions of \<open>extract.py\<close>\<close>

text \<open>
  The interpreter's Unicode character database is not part of the repository. The model
  is exact on ASCII and takes the rest of the tables as a parameter: which code points
  beyond ASCII \<open>str.isalnum\<close> accepts (the regex class \<open>\w\<close>, with the underscore),
  which ones are decimal digits (\<open>\d\<close>), and what \<open>str.lower\<close> returns for a string
  that is not pure ASCII.
\<close>

record ucd =
  uni_alnum :: "codepoint \<Rightarrow> bool"
  uni_decimal :: "codepoint \<Rightarrow> bool"
  uni_lower :: "ustr \<Rightarrow> ustr"

definition is_ascii_letter :: "codepoint \<Rightarrow> bool" where
  "is_ascii_letter c \<longleftrightarrow> (65 \<le> c \<and> c \<le> 90) \<or> (97 \<le> c \<and> c \<le> 122)"

definition is_ascii_digit :: "codepoint \<Rightarrow> bool" where
  "is_ascii_digit c \<longleftrightarrow> 48 \<le> c \<and> c \<le> 57"

definition re_word :: "ucd \<Rightarrow> codepoint \<Rightarrow> bool" where
  "re_word U c =
     (if c < 128 then is_ascii_letter c \<or> is_ascii_digit c \<or> c = 95 else uni_alnum U c)"

definition re_digit :: "ucd \<Rightarrow> codepoint \<Rightarrow> bool" where
  "re_digit U c = (if c < 128 then is_ascii_digit c else uni_decimal U c)"

definition ascii_lower :: "codepoint \<Rightarrow> codepoint" where
  "ascii_lower c = (if 65 \<le> c \<and> c \<le> 90 then c + 32 else c)"

definition py_lower :: "ucd \<Rightarrow> ustr \<Rightarrow> ustr" where
  "py_lower U s = (if list_all (\<lambda>c. c < 128) s then map ascii_lower s else uni_lower U s)"

text \<open>
  \<open>\b\<close> holds between two positions when exactly one of the neighbouring characters
  is a word character; the start and the end of the string count as non-word.
\<close>

definition at_boundary :: "ucd \<Rightarrow> codepoint option \<Rightarrow> ustr \<Rightarrow> bool" where
  "at_boundary U prev rest \<longleftrightarrow>
     (case prev of None \<Rightarrow> False | Some p \<Rightarrow> re_word U p) \<noteq>
     (case rest of [] \<Rightarrow> False | c # _ \<Rightarrow> re_word U c)"

text \<open>
  One attempt of \<open>\b[A-Za-z]{lo,hi}\b\<close> at a position: the greedy repetition takes as
  many letters as it may, then gives them back one at a time until the closing \<open>\b\<close>
  holds. The result is the length of the match.
\<close>

fun try_lengths :: "ucd \<Rightarrow> ustr \<Rightarrow> nat \<Rightarrow> nat \<Rightarrow> nat option" where
  "try_lengths U rest lo 0 = None"
| "try_lengths U rest lo (Suc k) =
     (if Suc k < lo then None
      else if at_boundary U (Some (rest ! k)) (drop (Suc k) rest) then Some (Suc k)
      else try_lengths U rest lo k)"

definition match_word :: "ucd \<Rightarrow> nat \<Rightarrow> nat option \<Rightarrow> codepoint option \<Rightarrow> ustr \<Rightarrow> nat option" where
  "match_word U lo hi prev rest =
     (if at_boundary U prev rest then
        let n = length (takeWhile is_ascii_letter rest);
            m = (case hi of None \<Rightarrow> n | Some h \<Rightarrow> min n h)
        in try_lengths U rest lo m
      else None)"

text \<open>
  \<open>re.findall\<close> of that pattern: scan from the left, after a match go on behind it,
  otherwise one character further. \<open>prev\<close> is the character before the position.
\<close>

function findall_words :: "ucd \<Rightarrow> nat \<Rightarrow> nat option \<Rightarrow> codepoint option \<Rightarrow> ustr \<Rightarrow> ustr list" where
  "findall_words U lo hi prev [] = []"
| "findall_words U lo hi prev (c # cs) =
     (case match_word U lo hi prev (c # cs) of
        Some (Suc k) \<Rightarrow>
          take (Suc k) (c # cs) # findall_words U lo hi (Some ((c # cs) ! k)) (drop k cs)
      | _ \<Rightarrow> findall_words U lo hi (Some c) cs)"
  by pat_completeness auto
termination
  by (relation "measure (\<lambda>(U, lo, hi, prev, s). length s)") auto

text \<open>\<open>re.findall(r'\d+', text)\<close>: the maximal runs of digits.\<close>

function findall_digits :: "ucd \<Rightarrow> ustr \<Rightarrow> ustr list" where
  "findall_digits U [] = []"
| "findall_digits U (c # cs) =
     (if re_digit U c
      then (c # takeWhile (re_digit U) cs) # findall_digits U (dropWhile (re_digit U) cs)
      else findall_digits U cs)"
  by pat_completeness auto
termination
  by (relation "measure (\<lambda>(U, s). length s)") (auto simp: length_dropWhile_le le_imp_less_Suc)

text \<open>
  \<open>re.split\<close> on a repeated class such as \<open>[,\s]+\<close>: a whole run of separators
  splits once; a separator at either end leaves an empty piece there.
\<close>

function split_runs :: "(codepoint \<Rightarrow> bool) \<Rightarrow> ustr \<Rightarrow> ustr list" where
  "split_runs P s =
     (case dropWhile (\<lambda>c. \<not> P c) s of
        [] \<Rightarrow> [s]
      | _ # rest \<Rightarrow> takeWhile (\<lambda>c. \<not> P c) s # split_runs P (dropWhile P rest))"
  by pat_completeness auto
termination
proof (relation "measure (\<lambda>(P, s). length s)")
  show "wf (measure (\<lambda>(P, s). length s))" by simp
next
  fix P :: "codepoint \<Rightarrow> bool" and s :: ustr and x rest
  assume "dropWhile (\<lambda>c. \<not> P c) s = x # rest"
  then have "Suc (length rest) \<le> length s"
    using length_dropWhile_le [of "\<lambda>c. \<not> P c" s] by simp
  moreover have "length (dropWhile P rest) \<le> length rest"
    by (rule length_dropWhile_le)
  ultimately show "((P, dropWhile P rest), (P, s)) \<in> measure (\<lambda>(P, s). length s)"
    by simp
qed

declare split_runs.simps [simp del]

section \<open>The generator and its prompts\<close>

text \<open>
  \<open>PromptTemplate\<close> and the generator come from the flashrag package, which is not part
  of the repository. A prompt is modelled by the template it was built from and the values
  filled in; \<open>get_string\<close> is taken not to raise. The generator is a parameter: from the
  state of the outside world and a prompt it either raises or returns the list of
  generated strings, and leaves a new state.
\<close>

datatype prompt =
    ExtractPrompt ustr
  | EntityPrompt ustr
  | QueryPrompt ustr
  | AnswerPrompt ustr ustr
  | SimplePrompt ustr ustr

type_synonym 'w generator = "'w \<Rightarrow> prompt \<Rightarrow> (py_error + ustr list) \<times> 'w"

text \<open>A generator that also records every prompt it is given, in order.\<close>

definition logged :: "'w generator \<Rightarrow> ('w \<times> prompt list) generator" where
  "logged gen = (\<lambda>(w, log) p. case gen w p of (r, w') \<Rightarrow> (r, (w', log @ [p])))"


section \<open>QuestionDecomposer: \<open>extract.py\<close>\<close>

text \<open>The label-stripping loops have no \<open>break\<close>: every label is tried in turn.\<close>

fun strip_prefixes :: "ustr list \<Rightarrow> ustr \<Rightarrow> ustr" where
  "strip_prefixes [] s = s"
| "strip_prefixes (prefix # rest) s =
     strip_prefixes rest
       (if startswith s prefix then py_strip (drop (length prefix) s) else s)"

definition question_prefixes :: "ustr list" where
  "question_prefixes = map ustr [''Output:'', ''Answer:'', ''Question:'', ''Core question:'']"

definition is_sentence_end :: "codepoint \<Rightarrow> bool" where
  "is_sentence_end c \<longleftrightarrow> c \<in> set (ustr ''.?!'')"

text \<open>The cleaning of the generated core question, lines 26 to 31.\<close>

definition clean_core_question :: "ustr \<Rightarrow> ustr" where
  "clean_core_question r =
     (let core_q = py_strip r;
          core_q = strip_prefixes question_prefixes core_q
      in py_strip (rstrip_chars (\<lambda>c. c \<in> set (ustr ''?.'')) core_q))"

text \<open>The fallback of \<open>extract_question_with_llm\<close>, lines 39 to 41.\<close>

definition last_sentence :: "ustr \<Rightarrow> ustr" where
  "last_sentence text =
     (let sentences = split_where is_sentence_end text;
          sentences = map py_strip (filter (\<lambda>s. py_strip s \<noteq> []) sentences)
      in if sentences \<noteq> [] then last sentences else text)"

text \<open>
  The body of the \<open>try\<close>: \<open>Inl\<close> is an exception, \<open>Inr None\<close> is leaving the block
  without a \<open>return\<close>, \<open>Inr (Some v)\<close> is \<open>return v\<close>.
\<close>

definition question_try :: "'w generator \<Rightarrow> 'w \<Rightarrow> ustr \<Rightarrow> (py_error + ustr option) \<times> 'w" where
  "question_try gen w text =
     (case gen w (ExtractPrompt text) of
        (Inl e, w') \<Rightarrow> (Inl e, w')
      | (Inr result, w') \<Rightarrow>
          (case result of
             [] \<Rightarrow> (Inr None, w')
           | r # _ \<Rightarrow>
               (let core_q = clean_core_question r
                in if length core_q < 3 then (Inl ValueError, w')
                   else (Inr (Some core_q), w'))))"

definition extract_question_with_llm :: "'w generator \<Rightarrow> 'w \<Rightarrow> ustr \<Rightarrow> (py_error + ustr) \<times> 'w" where
  "extract_question_with_llm gen w text =
     (if length text < 20 then (Inr text, w)
      else
        (case question_try gen w text of
           (Inr (Some core_q), w') \<Rightarrow> (Inr core_q, w')
         | (Inr None, w') \<Rightarrow> (Inr (last_sentence text), w')
         | (Inl e, w') \<Rightarrow> (Inr (last_sentence text), w')))"

definition entity_prefixes :: "ustr list" where
  "entity_prefixes = map ustr [''Output:'', ''Keywords:'', ''Entities:'']"

definition is_comma_or_space :: "codepoint \<Rightarrow> bool" where
  "is_comma_or_space c \<longleftrightarrow> c = ch CHR '','' \<or> py_isspace c"

text \<open>The handling of a generated keyword line, lines 85 to 93.\<close>

definition parse_entities :: "ustr \<Rightarrow> ustr list" where
  "parse_entities r =
     (let entities_str = py_strip r;
          entities_str = strip_prefixes entity_prefixes entities_str;
          entities = split_runs is_comma_or_space entities_str;
          entities = map py_strip (filter (\<lambda>e. py_strip e \<noteq> [] \<and> length e > 1) entities)
      in take 10 entities)"

definition entities_try :: "'w generator \<Rightarrow> 'w \<Rightarrow> ustr \<Rightarrow> (py_error + ustr list option) \<times> 'w" where
  "entities_try gen w text =
     (case gen w (EntityPrompt text) of
        (Inl e, w') \<Rightarrow> (Inl e, w')
      | (Inr result, w') \<Rightarrow>
          (case result of
             [] \<Rightarrow> (Inr None, w')
           | r # _ \<Rightarrow> (Inr (Some (parse_entities r)), w')))"

text \<open>The fallback of \<open>extract_core_entities\<close>, lines 98 to 103.\<close>

definition keyword_fallback :: "ucd \<Rightarrow> ustr \<Rightarrow> ustr list" where
  "keyword_fallback U text =
     (let words = findall_words U 2 (Some 15) None text;
          numbers = findall_digits U text;
          keywords = take 6 words @ take 3 numbers
      in if keywords \<noteq> [] then take 10 keywords else [take 30 text])"

definition extract_core_entities ::
  "ucd \<Rightarrow> 'w generator \<Rightarrow> 'w \<Rightarrow> ustr \<Rightarrow> (py_error + ustr list) \<times> 'w" where
  "extract_core_entities U gen w text =
     (if length text < 10 then (Inr [text], w)
      else
        (case entities_try gen w text of
           (Inr (Some entities), w') \<Rightarrow> (Inr entities, w')
         | (Inr None, w') \<Rightarrow> (Inr (keyword_fallback U text), w')
         | (Inl e, w') \<Rightarrow> (Inr (keyword_fallback U text), w')))"

text \<open>\<open>raw_output.replace('\<dots>', ',')\<close> for the full-width comma U+FF0C.\<close>

definition fullwidth_comma :: codepoint where
  "fullwidth_comma = 65292"

definition replace_char :: "codepoint \<Rightarrow> codepoint \<Rightarrow> ustr \<Rightarrow> ustr" where
  "replace_char a b s = map (\<lambda>c. if c = a then b else c) s"

definition parse_queries :: "ustr \<Rightarrow> ustr list" where
  "parse_queries r =
     (let raw_output = py_strip r;
          raw_output = replace_char fullwidth_comma (ch CHR '','') raw_output
      in map py_strip (filter (\<lambda>x. py_strip x \<noteq> []) (py_split (ch CHR '','') raw_output)))"

definition querys_try :: "'w generator \<Rightarrow> 'w \<Rightarrow> ustr \<Rightarrow> (py_error + ustr list) \<times> 'w" where
  "querys_try gen w text =
     (case gen w (QueryPrompt text) of
        (Inl e, w') \<Rightarrow> (Inl e, w')
      | (Inr result, w') \<Rightarrow>
          (case result of
             [] \<Rightarrow> (Inl IndexError, w')
           | r # _ \<Rightarrow> (Inr (parse_queries r), w')))"

definition extract_core_querys :: "'w generator \<Rightarrow> 'w \<Rightarrow> ustr \<Rightarrow> (py_error + ustr list) \<times> 'w" where
  "extract_core_querys gen w text =
     (if length text < 10 then (Inr [text], w)
      else
        (case querys_try gen w text of
           (Inr keyword_list, w') \<Rightarrow> (Inr keyword_list, w')
         | (Inl e, w') \<Rightarrow> (Inr [text], w')))"

text \<open>\<open>xs[:n]\<close> for a Python integer \<open>n\<close>: a negative bound counts from the end.\<close>

definition py_take :: "int \<Rightarrow> 'a list \<Rightarrow> 'a list" where
  "py_take n xs = (if 0 \<le> n then take (nat n) xs else take (length xs - nat (- n)) xs)"

fun py_join :: "ustr \<Rightarrow> ustr list \<Rightarrow> ustr" where
  "py_join sep [] = []"
| "py_join sep [x] = x"
| "py_join sep (x # y # ys) = x @ sep @ py_join sep (y # ys)"

definition is_sentence_break :: "codepoint \<Rightarrow> bool" where
  "is_sentence_break c \<longleftrightarrow> c = 12290 \<or> c = 65281 \<or> c = 65311 \<or> c = 10"

definition doc_sentences :: "ustr \<Rightarrow> ustr list" where
  "doc_sentences doc =
     map py_strip (filter (\<lambda>s. length (py_strip s) > 10) (split_runs is_sentence_break doc))"

definition latin_words :: "ucd \<Rightarrow> ustr \<Rightarrow> ustr list" where
  "latin_words U s = findall_words U 2 None None (py_lower U s)"

definition sentence_score :: "ucd \<Rightarrow> ustr list \<Rightarrow> ustr \<Rightarrow> nat" where
  "sentence_score U question_keywords sent =
     card (set question_keywords \<inter> set (latin_words U sent))"

text \<open>
  \<open>sort(key=..., reverse=True)\<close> is stable: equal scores keep their order. Sorting
  by the negated score with the stable \<open>sort_key\<close> does the same.
\<close>

definition extract_relevant_sentences :: "ucd \<Rightarrow> ustr list \<Rightarrow> ustr \<Rightarrow> int \<Rightarrow> ustr" where
  "extract_relevant_sentences U documents question max_sentences =
     (if documents = [] then []
      else
        let all_sentences = concat (map doc_sentences documents)
        in if all_sentences = [] then take 200 (hd documents)
           else
             let question_keywords = latin_words U question;
                 sentence_scores =
                   map (\<lambda>sent. (sentence_score U question_keywords sent, sent))
                     (take 50 all_sentences);
                 sentence_scores = sort_key (\<lambda>x. - int (fst x)) sentence_scores;
                 top_sentences =
                   map snd (filter (\<lambda>x. fst x > 0) (py_take max_sentences sentence_scores))
             in if top_sentences = [] then py_join [10] (take 2 all_sentences)
                else py_join [10] top_sentences)"


section \<open>JSON values and \<open>json.dumps\<close>\<close>

text \<open>
  The values \<open>json.load\<close> returns, with integers for numbers (floating point is left
  out). An object is the list of its entries in order; \<open>map_of\<close> looks a key up.
\<close>

datatype json =
    JNull
  | JBool bool
  | JInt int
  | JStr ustr
  | JArr "json list"
  | JObj "(ustr \<times> json) list"

fun digits_of_nat :: "nat \<Rightarrow> ustr" where
  "digits_of_nat n = (if n < 10 then [48 + n] else digits_of_nat (n div 10) @ [48 + n mod 10])"

declare digits_of_nat.simps [simp del]

definition str_of_int :: "int \<Rightarrow> ustr" where
  "str_of_int i = (if i < 0 then ch CHR ''-'' # digits_of_nat (nat (- i)) else digits_of_nat (nat i))"

definition hex_digit :: "nat \<Rightarrow> codepoint" where
  "hex_digit d = (if d < 10 then 48 + d else 87 + d)"

text \<open>
  String escaping with \<open>ensure_ascii=False\<close>: the quote, the backslash and the control
  characters below U+0020 are escaped, everything else is written as it is.
\<close>

definition json_escape :: "codepoint \<Rightarrow> ustr" where
  "json_escape c =
     (if c = 34 then [92, 34]
      else if c = 92 then [92, 92]
      else if c = 10 then [92, ch CHR ''n'']
      else if c = 13 then [92, ch CHR ''r'']
      else if c = 9 then [92, ch CHR ''t'']
      else if c = 8 then [92, ch CHR ''b'']
      else if c = 12 then [92, ch CHR ''f'']
      else if c < 32 then [92, ch CHR ''u'', 48, 48, hex_digit (c div 16), hex_digit (c mod 16)]
      else [c])"

definition json_string :: "ustr \<Rightarrow> ustr" where
  "json_string s = [34] @ concat (map json_escape s) @ [34]"

definition newline_indent :: "nat \<Rightarrow> ustr" where
  "newline_indent level = 10 # replicate (2 * level) 32"

text \<open>
  \<open>json.dumps(v, ensure_ascii=False, indent=2)\<close>, at nesting depth \<open>level\<close>: every
  entry of a non-empty array or object goes on a line of its own.
\<close>

fun json_dumps :: "nat \<Rightarrow> json \<Rightarrow> ustr" where
  "json_dumps level JNull = ustr ''null''"
| "json_dumps level (JBool b) = (if b then ustr ''true'' else ustr ''false'')"
| "json_dumps level (JInt i) = str_of_int i"
| "json_dumps level (JStr s) = json_string s"
| "json_dumps level (JArr xs) =
     (if xs = [] then ustr ''[]''
      else ustr ''['' @ newline_indent (Suc level) @
           py_join (ch CHR '','' # newline_indent (Suc level))
             (map (json_dumps (Suc level)) xs) @
           newline_indent level @ ustr '']'')"
| "json_dumps level (JObj kvs) =
     (if kvs = [] then ustr ''{}''
      else ustr ''{'' @ newline_indent (Suc level) @
           py_join (ch CHR '','' # newline_indent (Suc level))
             (map (\<lambda>kv. json_string (fst kv) @ ustr '': '' @ json_dumps (Suc level) (snd kv)) kvs) @
           newline_indent level @ ustr ''}'')"


section \<open>PipelineController: \<open>mian.py\<close>\<close>

text \<open>
  The search client is a parameter as well: \<open>web_search\<close> catches every exception and
  returns the references it found, possibly none. Of a reference the pipeline reads the
  title, which may be missing, and the content.
\<close>

record reference =
  ref_title :: "ustr option"
  ref_content :: ustr

type_synonym 'w searcher = "'w \<Rightarrow> ustr \<Rightarrow> reference list \<times> 'w"

text \<open>Steps 1 and 2, lines 88 to 99: core question, keywords, search query.\<close>

definition decompose ::
  "ucd \<Rightarrow> 'w generator \<Rightarrow> 'w \<Rightarrow> ustr \<Rightarrow> (py_error + ustr \<times> ustr list \<times> ustr) \<times> 'w" where
  "decompose U gen w question_text =
     (case extract_question_with_llm gen w question_text of
        (Inl e, w1) \<Rightarrow> (Inl e, w1)
      | (Inr core_question, w1) \<Rightarrow>
          (case extract_core_entities U gen w1 question_text of
             (Inl e, w2) \<Rightarrow> (Inl e, w2)
           | (Inr entities, w2) \<Rightarrow>
               (let search_query =
                      (if entities \<noteq> [] then py_join [32] entities else core_question)
                in (Inr (core_question, entities, search_query), w2))))"

text \<open>Step 4, lines 116 to 135: titles and contents of the first five references.\<close>

definition aggregate :: "reference list \<Rightarrow> ustr list" where
  "aggregate refs =
     concat (map (\<lambda>ref.
        (case ref_title ref of None \<Rightarrow> [] | Some title \<Rightarrow> (if title \<noteq> [] then [title] else [])) @
        (if ref_content ref \<noteq> [] then [ref_content ref] else []))
      (take 5 refs))"

text \<open>\<open>sub in s\<close> for strings.\<close>

fun py_contains :: "ustr \<Rightarrow> ustr \<Rightarrow> bool" where
  "py_contains [] sub = (sub = [])"
| "py_contains (x # xs) sub = (startswith (x # xs) sub \<or> py_contains xs sub)"

definition leak_words :: "ustr list" where
  "leak_words = map ustr [''according'', ''based on'', ''information'', ''reference'']"

definition needs_retry :: "ustr \<Rightarrow> bool" where
  "needs_retry answer_text \<longleftrightarrow>
     length answer_text < 2 \<or> list_ex (\<lambda>bad. py_contains answer_text bad) leak_words"

text \<open>The two markers written when generation fails (U+9519 U+8BEF and U+751F U+6210 U+5931 U+8D25).\<close>

definition error_marker :: ustr where
  "error_marker = [38169, 35823]"

definition failed_marker :: ustr where
  "failed_marker = [29983, 25104, 22833, 36133]"

text \<open>
  Step 6 with the quality gate, lines 185 to 217. Whatever is raised inside the
  \<open>try\<close> ends in the error marker.
\<close>

definition generate_answer :: "'w generator \<Rightarrow> 'w \<Rightarrow> ustr \<Rightarrow> ustr \<Rightarrow> ustr \<times> 'w" where
  "generate_answer gen w relevant_context core_question =
     (case gen w (AnswerPrompt relevant_context core_question) of
        (Inl e, w1) \<Rightarrow> (error_marker, w1)
      | (Inr answer_list, w1) \<Rightarrow>
          (case answer_list of
             [] \<Rightarrow> (failed_marker, w1)
           | a # _ \<Rightarrow>
               (case clean_answer_aggressive (py_strip a) of
                  Inl e \<Rightarrow> (error_marker, w1)
                | Inr answer_text \<Rightarrow>
                    if needs_retry answer_text then
                      (case gen w1 (SimplePrompt relevant_context core_question) of
                         (Inl e, w2) \<Rightarrow> (error_marker, w2)
                       | (Inr retry, w2) \<Rightarrow>
                           (case retry of
                              [] \<Rightarrow> (answer_text, w2)
                            | r # _ \<Rightarrow>
                                (case clean_answer_aggressive r of
                                   Inl e \<Rightarrow> (error_marker, w2)
                                 | Inr answer_text \<Rightarrow> (answer_text, w2))))
                    else (answer_text, w1))))"

text \<open>One pass of the loop body for a question text: the value of \<open>output_field\<close>.\<close>

definition answer_question ::
  "ucd \<Rightarrow> 'w generator \<Rightarrow> 'w searcher \<Rightarrow> 'w \<Rightarrow> ustr \<Rightarrow> (py_error + ustr) \<times> 'w" where
  "answer_question U gen search w question_text =
     (case decompose U gen w question_text of
        (Inl e, w1) \<Rightarrow> (Inl e, w1)
      | (Inr (core_question, entities, search_query), w1) \<Rightarrow>
          (case search w1 search_query of
             (references, w2) \<Rightarrow>
               (let documents = aggregate references;
                    relevant_context = extract_relevant_sentences U documents question_text 2
                in case generate_answer gen w2 relevant_context core_question of
                     (answer, w3) \<Rightarrow> (Inr answer, w3))))"

text \<open>
  The loop over the input, lines 68 to 233, threading the text written to the output
  file. An entry that is not an object or has no \<open>input_field\<close> is skipped. The input
  format gives \<open>input_field\<close> a string; for another value the model raises
  \<open>TypeError\<close>, as the slice in line 77 does for a number or null. An exception leaves
  the loop with what has been written so far. The trace log is not modelled.
\<close>

fun run_questions ::
  "ucd \<Rightarrow> 'w generator \<Rightarrow> 'w searcher \<Rightarrow> nat \<Rightarrow> json list \<Rightarrow> 'w \<Rightarrow> ustr \<Rightarrow> py_error option \<times> ustr \<times> 'w" where
  "run_questions U gen search i [] w out = (None, out, w)"
| "run_questions U gen search i (q # qs) w out =
     (case q of
        JObj obj \<Rightarrow>
          (case map_of obj (ustr ''input_field'') of
             None \<Rightarrow> run_questions U gen search (Suc i) qs w out
           | Some (JStr question_text) \<Rightarrow>
               (let question_id =
                      (case map_of obj (ustr ''id'') of
                         Some v \<Rightarrow> v
                       | None \<Rightarrow> JStr (ustr ''q_'' @ digits_of_nat i))
                in case answer_question U gen search w question_text of
                     (Inl e, w') \<Rightarrow> (Some e, out, w')
                   | (Inr answer, w') \<Rightarrow>
                       (let result_item =
                              JObj [(ustr ''id'', question_id), (ustr ''output_field'', JStr answer)]
                        in run_questions U gen search (Suc i) qs w'
                             (out @ json_dumps 0 result_item @ [10])))
           | Some _ \<Rightarrow> (Some TypeError, out, w))
      | _ \<Rightarrow> run_questions U gen search (Suc i) qs w out)"

definition main_run ::
  "ucd \<Rightarrow> 'w generator \<Rightarrow> 'w searcher \<Rightarrow> 'w \<Rightarrow> json list \<Rightarrow> py_error option \<times> ustr \<times> 'w" where
  "main_run U gen search w questions = run_questions U gen search 0 questions w []"


section \<open>Notions used in the statements\<close>

text \<open>What the stages of the normaliser look for, as predicates on a string.\<close>

definition has_bad_start :: "ustr \<Rightarrow> bool" where
  "has_bad_start t \<longleftrightarrow> list_ex (startswith t) bad_starts"

definition colon_within_15 :: "ustr \<Rightarrow> bool" where
  "colon_within_15 t \<longleftrightarrow> ch CHR '':'' \<in> set (take 15 t)"

definition outer_char :: "(codepoint \<Rightarrow> bool) \<Rightarrow> ustr \<Rightarrow> bool" where
  "outer_char P t \<longleftrightarrow> t \<noteq> [] \<and> (P (hd t) \<or> P (last t))"

definition has_delimiter :: "ustr \<Rightarrow> bool" where
  "has_delimiter t \<longleftrightarrow> list_ex (\<lambda>d. d \<in> set t) delimiters"


text \<open>
  The input entries that lead to an output record, the entries the input format allows
  (an \<open>input_field\<close>, when present, is a string), the \<open>id\<close> of the record written
  for the entry at position \<open>i\<close>, and the text written for it.
\<close>

definition valid_entry :: "json \<Rightarrow> bool" where
  "valid_entry q = (case q of JObj obj \<Rightarrow> map_of obj (ustr ''input_field'') \<noteq> None | _ \<Rightarrow> False)"

definition string_entry :: "json \<Rightarrow> bool" where
  "string_entry q =
     (case q of
        JObj obj \<Rightarrow>
          (case map_of obj (ustr ''input_field'') of
             None \<Rightarrow> True | Some (JStr _) \<Rightarrow> True | Some _ \<Rightarrow> False)
      | _ \<Rightarrow> True)"

definition entry_id :: "nat \<Rightarrow> json \<Rightarrow> json" where
  "entry_id i q =
     (case q of
        JObj obj \<Rightarrow>
          (case map_of obj (ustr ''id'') of
             Some v \<Rightarrow> v | None \<Rightarrow> JStr (ustr ''q_'' @ digits_of_nat i))
      | _ \<Rightarrow> JNull)"

definition record_line :: "(nat \<times> json) \<times> ustr \<Rightarrow> ustr" where
  "record_line = (\<lambda>((i, q), answer).
     json_dumps 0 (JObj [(ustr ''id'', entry_id i q), (ustr ''output_field'', JStr answer)]) @ [10])"

text \<open>No two neighbouring characters of the string are both outside \<open>P\<close>.\<close>

fun sparse :: "(codepoint \<Rightarrow> bool) \<Rightarrow> ustr \<Rightarrow> bool" where
  "sparse P (x # y # zs) = ((P x \<or> P y) \<and> sparse P (y # zs))"
| "sparse P _ = True"

text \<open>
  Sample collaborators for the concrete runs below: a character database with nothing
  beyond ASCII, a generator that always raises, one that always answers with the same
  string, and a search that finds nothing. Their state is the unit type.
\<close>

definition ascii_ucd :: ucd where
  "ascii_ucd = \<lparr>uni_alnum = (\<lambda>c. False), uni_decimal = (\<lambda>c. False), uni_lower = (\<lambda>s. s)\<rparr>"

definition raising_gen :: "unit generator" where
  "raising_gen = (\<lambda>w p. (Inl GeneratorError, w))"

definition const_gen :: "ustr \<Rightarrow> unit generator" where
  "const_gen r = (\<lambda>w p. (Inr [r], w))"

definition no_search :: "unit searcher" where
  "no_search = (\<lambda>w query. ([], w))"


section \<open>Facts about the string primitives\<close>

lemmas str_eval = ustr_def startswith_def py_strip_def strip_chars_def lstrip_chars_def
  rstrip_chars_def py_isspace_def py_split_def split_once_last_def py_index_def

lemmas clean_eval = clean_answer_aggressive_def bad_starts_def colon_split_def is_quote_def
  delimiters_def is_end_punct_def Let_def

lemma length_rstrip_chars: "length (rstrip_chars P s) \<le> length s"
  by (simp add: rstrip_chars_def length_dropWhile_le order_trans [OF length_dropWhile_le])

lemma length_strip_chars: "length (strip_chars P s) \<le> length s"
  unfolding strip_chars_def lstrip_chars_def
  by (rule order_trans [OF length_rstrip_chars length_dropWhile_le])

lemma length_py_strip: "length (py_strip s) \<le> length s"
  by (simp add: py_strip_def length_strip_chars)

lemma split_where_nonempty: "split_where P s \<noteq> []"
  by (induction s) (auto split: list.splits)

lemma hd_split_where: "hd (split_where P s) = takeWhile (\<lambda>x. \<not> P x) s"
  by (induction s) (auto split: list.splits simp: split_where_nonempty)

lemma rstrip_chars_id: "\<not> outer_char P t \<Longrightarrow> rstrip_chars P t = t"
  by (cases t rule: rev_cases) (auto simp: rstrip_chars_def outer_char_def)

lemma strip_chars_id: "\<not> outer_char P t \<Longrightarrow> strip_chars P t = t"
proof (cases t)
  case Nil
  then show ?thesis by (simp add: strip_chars_def lstrip_chars_def rstrip_chars_def)
next
  case (Cons x xs)
  assume h: "\<not> outer_char P t"
  with Cons have "lstrip_chars P t = t" by (simp add: lstrip_chars_def outer_char_def)
  with h show ?thesis by (simp add: strip_chars_def rstrip_chars_id)
qed


section \<open>The normaliser\<close>

lemma colon_split_total: "\<exists>r. colon_split answer = Inr r"
  by (simp add: colon_split_def py_index_def)

lemma clean_total: "\<exists>r. clean_answer_aggressive s = Inr r"
  using colon_split_total [of "strip_bad_start bad_starts s"]
  by (auto simp: clean_answer_aggressive_def Let_def)

lemma strip_bad_start_id: "\<not> list_ex (startswith t) bs \<Longrightarrow> strip_bad_start bs t = t"
  by (induction bs) auto

lemma index_ge_take:
  "c \<notin> set (take n t) \<Longrightarrow> c \<in> set t \<Longrightarrow> n \<le> length (takeWhile (\<lambda>x. x \<noteq> c) t)"
proof (induction t arbitrary: n)
  case Nil
  then show ?case by simp
next
  case (Cons x t)
  then show ?case by (cases n) auto
qed

lemma colon_split_id: "\<not> colon_within_15 t \<Longrightarrow> colon_split t = Inr t"
  using index_ge_take [of "ch CHR '':''" 15 t]
  by (auto simp: colon_split_def py_index_def colon_within_15_def)

lemma first_clause_id: "\<not> list_ex (\<lambda>d. d \<in> set t) ds \<Longrightarrow> first_clause ds t = t"
  by (induction ds) auto

lemma rstrip_end_punct_id:
  assumes "\<not> has_delimiter t" "t = [] \<or> last t \<notin> {ch CHR ''!'', ch CHR ''?''}"
  shows "rstrip_chars is_end_punct t = t"
proof (cases t rule: rev_cases)
  case Nil
  then show ?thesis by (simp add: rstrip_chars_def)
next
  case (snoc ys y)
  with assms have "\<not> is_end_punct y"
    by (auto simp: is_end_punct_def ustr_def has_delimiter_def delimiters_def)
  with snoc show ?thesis by (simp add: rstrip_chars_def)
qed

text \<open>
  C1. For every string \<open>s\<close>, \<open>clean_answer_aggressive s\<close> returns (it never raises:
  the only raising operation, \<open>index\<close>, is guarded by the membership test) a string of
  at most 30 characters, which is non-empty whenever \<open>s\<close> is non-empty; and the empty
  string is mapped to the empty string.
\<close>

theorem clean_answer_aggressive_bounds:
  "\<exists>r. clean_answer_aggressive s = Inr r \<and> length r \<le> 30 \<and> (s \<noteq> [] \<longrightarrow> r \<noteq> []) \<and>
       clean_answer_aggressive [] = Inr []"
proof -
  obtain a where a: "colon_split (strip_bad_start bad_starts s) = Inr a"
    using colon_split_total by blast
  define b where "b = rstrip_chars is_end_punct (first_clause delimiters (strip_chars is_quote a))"
  define c where "c = py_strip (if length b > 30 then take 30 b else b)"
  have c30: "length c \<le> 30"
    unfolding c_def by (rule order_trans [OF length_py_strip]) simp
  have empty: "clean_answer_aggressive [] = Inr []"
    by (simp add: clean_answer_aggressive_def)
  show ?thesis
  proof (cases "s = []")
    case True
    then show ?thesis using empty by simp
  next
    case False
    then have "clean_answer_aggressive s = Inr (if c \<noteq> [] then c else take 20 s)"
      by (simp add: clean_answer_aggressive_def a b_def c_def Let_def)
    with False c30 empty show ?thesis by auto
  qed
qed

theorem clean_answer_aggressive_bounds_witness:
  "ustr ''Answer: Ringo Sheena.'' \<noteq> [] \<and>
   (\<exists>r. clean_answer_aggressive (ustr ''Answer: Ringo Sheena.'') = Inr r \<and>
        length r \<le> 30 \<and> r \<noteq> [])"
proof -
  have ne: "ustr ''Answer: Ringo Sheena.'' \<noteq> []"
    by (simp add: ustr_def)
  with clean_answer_aggressive_bounds [of "ustr ''Answer: Ringo Sheena.''"]
  show ?thesis by blast
qed

text \<open>
  C8, as stated: whenever the result \<open>t\<close> of a first pass has no boilerplate prefix, no
  colon within its first 15 characters, no leading or trailing quote and at most 30
  characters, a second pass returns \<open>t\<close>. This fails: the first pass on
  \<open>example.com,x\<close> cuts at the comma and leaves \<open>example.com\<close>, which meets all four
  conditions, and the second pass cuts it at the full stop.
\<close>

theorem clean_idempotence_counterexample:
  "clean_answer_aggressive (ustr ''example.com,x'') = Inr (ustr ''example.com'') \<and>
   \<not> has_bad_start (ustr ''example.com'') \<and>
   \<not> colon_within_15 (ustr ''example.com'') \<and>
   \<not> outer_char is_quote (ustr ''example.com'') \<and>
   length (ustr ''example.com'') \<le> 30 \<and>
   clean_answer_aggressive (ustr ''example.com'') = Inr (ustr ''example'') \<and>
   clean_answer_aggressive (ustr ''example.com'') \<noteq> Inr (ustr ''example.com'')"
  by (simp add: str_eval clean_eval has_bad_start_def colon_within_15_def outer_char_def)

text \<open>
  C8, amended: the second pass returns \<open>t\<close> when \<open>t\<close> moreover contains none of the
  clause delimiters (comma, full stop, newline, semicolon), does not end in \<open>!\<close> or
  \<open>?\<close>, and has no white space at either end.
\<close>

theorem clean_idempotent_on_plain:
  assumes "clean_answer_aggressive s = Inr t"
    and "\<not> has_bad_start t" and "\<not> colon_within_15 t" and "\<not> outer_char is_quote t"
    and "length t \<le> 30"
    and "\<not> has_delimiter t" and "t = [] \<or> last t \<notin> {ch CHR ''!'', ch CHR ''?''}"
    and "\<not> outer_char py_isspace t"
  shows "clean_answer_aggressive t = Inr t"
proof (cases "t = []")
  case True
  then show ?thesis by (simp add: clean_answer_aggressive_def)
next
  case False
  have 1: "strip_bad_start bad_starts t = t"
    using assms(2) by (simp add: has_bad_start_def strip_bad_start_id)
  have 4: "first_clause delimiters t = t"
    using assms(6) by (simp add: has_delimiter_def first_clause_id)
  have 5: "rstrip_chars is_end_punct t = t"
    using assms(6,7) by (rule rstrip_end_punct_id)
  show ?thesis
    using False assms(5)
    by (simp add: clean_answer_aggressive_def 1 colon_split_id [OF assms(3)]
        strip_chars_id [OF assms(4)] 4 5 py_strip_def strip_chars_id [OF assms(8)])
qed

theorem clean_idempotent_on_plain_witness:
  "clean_answer_aggressive (ustr ''Answer: Ringo Sheena.'') = Inr (ustr ''Ringo Sheena'') \<and>
   \<not> has_bad_start (ustr ''Ringo Sheena'') \<and>
   \<not> colon_within_15 (ustr ''Ringo Sheena'') \<and>
   \<not> outer_char is_quote (ustr ''Ringo Sheena'') \<and>
   length (ustr ''Ringo Sheena'') \<le> 30 \<and>
   \<not> has_delimiter (ustr ''Ringo Sheena'') \<and>
   last (ustr ''Ringo Sheena'') \<notin> {ch CHR ''!'', ch CHR ''?''} \<and>
   \<not> outer_char py_isspace (ustr ''Ringo Sheena'') \<and>
   clean_answer_aggressive (ustr ''Ringo Sheena'') = Inr (ustr ''Ringo Sheena'')"
proof -
  have 1: "clean_answer_aggressive (ustr ''Answer: Ringo Sheena.'') = Inr (ustr ''Ringo Sheena'')"
    by (simp add: str_eval clean_eval)
  have 2: "\<not> has_bad_start (ustr ''Ringo Sheena'')"
    by (simp add: str_eval bad_starts_def has_bad_start_def)
  have 3: "\<not> colon_within_15 (ustr ''Ringo Sheena'')"
    by (simp add: ustr_def colon_within_15_def)
  have 4: "\<not> outer_char is_quote (ustr ''Ringo Sheena'')"
    by (simp add: ustr_def outer_char_def is_quote_def)
  have 5: "length (ustr ''Ringo Sheena'') \<le> 30"
    by (simp add: ustr_def)
  have 6: "\<not> has_delimiter (ustr ''Ringo Sheena'')"
    by (simp add: ustr_def has_delimiter_def delimiters_def)
  have 7: "last (ustr ''Ringo Sheena'') \<notin> {ch CHR ''!'', ch CHR ''?''}"
    by (simp add: ustr_def)
  have 8: "\<not> outer_char py_isspace (ustr ''Ringo Sheena'')"
    by (simp add: ustr_def outer_char_def py_isspace_def)
  from clean_idempotent_on_plain [OF 1 2 3 4 5 6 disjI2 [OF 7] 8] 1 2 3 4 5 6 7 8
  show ?thesis by blast
qed

section \<open>More facts about stripping and splitting\<close>

lemma set_rstrip_chars: "set (rstrip_chars P s) \<subseteq> set s"
  using set_dropWhileD [of _ P "rev s"] by (auto simp: rstrip_chars_def)

lemma set_strip_chars: "set (strip_chars P s) \<subseteq> set s"
  using set_rstrip_chars [of P "lstrip_chars P s"] set_dropWhileD [of _ P s]
  by (auto simp: strip_chars_def lstrip_chars_def)

lemma rstrip_chars_prefix: "\<exists>z. s = rstrip_chars P s @ z"
proof -
  have "rev (dropWhile P (rev s)) @ rev (takeWhile P (rev s)) = s"
    by (simp flip: rev_append)
  then show ?thesis unfolding rstrip_chars_def by metis
qed

lemma strip_chars_infix: "\<exists>a z. s = a @ strip_chars P s @ z"
proof -
  obtain z where "lstrip_chars P s = strip_chars P s @ z"
    using rstrip_chars_prefix [of "lstrip_chars P s" P] by (auto simp: strip_chars_def)
  moreover have "s = takeWhile P s @ lstrip_chars P s" by (simp add: lstrip_chars_def)
  ultimately show ?thesis by metis
qed

lemma not_outer_rstrip: "rstrip_chars P s \<noteq> [] \<Longrightarrow> \<not> P (last (rstrip_chars P s))"
  using hd_dropWhile [of P "rev s"] by (simp add: rstrip_chars_def last_rev)

lemma not_outer_strip: "\<not> outer_char P (strip_chars P s)"
proof (cases "strip_chars P s = []")
  case True then show ?thesis by (simp add: outer_char_def)
next
  case False
  let ?d = "lstrip_chars P s"
  obtain z where z: "?d = strip_chars P s @ z"
    using rstrip_chars_prefix [of ?d P] by (auto simp: strip_chars_def)
  with False have "hd (strip_chars P s) = hd ?d" "?d \<noteq> []" by auto
  then have "\<not> P (hd (strip_chars P s))"
    using hd_dropWhile [of P s] by (simp add: lstrip_chars_def)
  moreover have "\<not> P (last (strip_chars P s))"
    using False not_outer_rstrip [of P ?d] by (simp add: strip_chars_def)
  ultimately show ?thesis by (simp add: outer_char_def)
qed

lemma strip_chars_idem: "strip_chars P (strip_chars P s) = strip_chars P s"
  by (rule strip_chars_id [OF not_outer_strip])

lemma py_strip_idem: "py_strip (py_strip s) = py_strip s"
  by (simp add: py_strip_def strip_chars_idem)

lemma split_where_free: "\<forall>p \<in> set (split_where P s). \<forall>x \<in> set p. \<not> P x"
  by (induction s) (auto split: list.splits)



section \<open>The decomposer\<close>

text \<open>
  C5. \<open>extract_question_with_llm\<close> never raises: it returns a value for every
  generator, state and text. For a text of at least 20 characters, when the generator
  raises or the cleaned generation result is shorter than 3 characters, the value is the
  fallback: the last non-empty trimmed piece of the text split at \<open>.\<close>, \<open>?\<close> and
  \<open>!\<close>, or the text itself when there is no such piece.
\<close>

theorem extract_question_fallback:
  "(\<exists>q w'. extract_question_with_llm gen w text = (Inr q, w')) \<and>
   (20 \<le> length text \<and>
    ((\<exists>e. gen w (ExtractPrompt text) = (Inl e, w1)) \<or>
     (\<exists>r rs. gen w (ExtractPrompt text) = (Inr (r # rs), w1) \<and> length (clean_core_question r) < 3))
    \<longrightarrow> extract_question_with_llm gen w text = (Inr (last_sentence text), w1)) \<and>
   last_sentence text =
     (let segments = [py_strip s. s \<leftarrow> split_where is_sentence_end text, py_strip s \<noteq> []]
      in if segments = [] then text else last segments)"
proof (intro conjI)
  show "\<exists>q w'. extract_question_with_llm gen w text = (Inr q, w')"
    by (auto simp: extract_question_with_llm_def split: prod.splits sum.splits option.splits)
next
  show "20 \<le> length text \<and>
    ((\<exists>e. gen w (ExtractPrompt text) = (Inl e, w1)) \<or>
     (\<exists>r rs. gen w (ExtractPrompt text) = (Inr (r # rs), w1) \<and> length (clean_core_question r) < 3))
    \<longrightarrow> extract_question_with_llm gen w text = (Inr (last_sentence text), w1)"
    by (auto simp: extract_question_with_llm_def question_try_def Let_def)
next
  have "map py_strip (filter (\<lambda>s. py_strip s \<noteq> []) xs) = [py_strip s. s \<leftarrow> xs, py_strip s \<noteq> []]" for xs
    by (induction xs) auto
  then show "last_sentence text =
     (let segments = [py_strip s. s \<leftarrow> split_where is_sentence_end text, py_strip s \<noteq> []]
      in if segments = [] then text else last segments)"
    by (simp add: last_sentence_def Let_def)
qed

theorem extract_question_fallback_witness:
  "20 \<le> length (ustr ''The band is famous. Who is the musician?'') \<and>
   raising_gen () (ExtractPrompt (ustr ''The band is famous. Who is the musician?'')) =
     (Inl GeneratorError, ()) \<and>
   extract_question_with_llm raising_gen () (ustr ''The band is famous. Who is the musician?'') =
     (Inr (ustr ''Who is the musician''), ())"
proof -
  let ?t = "ustr ''The band is famous. Who is the musician?''"
  have 1: "20 \<le> length ?t"
    by (simp add: ustr_def)
  have 2: "raising_gen () (ExtractPrompt ?t) = (Inl GeneratorError, ())"
    by (simp add: raising_gen_def)
  have 3: "last_sentence ?t = ustr ''Who is the musician''"
    by (simp add: last_sentence_def str_eval is_sentence_end_def)
  from extract_question_fallback [of raising_gen "()" ?t "()"] 1 2
  have "extract_question_with_llm raising_gen () ?t = (Inr (last_sentence ?t), ())"
    by blast
  with 1 2 3 show ?thesis by simp
qed

lemma parse_queries_props:
  assumes "q \<in> set (parse_queries r)"
  shows "q \<noteq> [] \<and> py_strip q = q \<and> ch CHR '','' \<notin> set q \<and> fullwidth_comma \<notin> set q"
proof -
  let ?raw = "replace_char fullwidth_comma (ch CHR '','') (py_strip r)"
  from assms obtain x where x: "x \<in> set (py_split (ch CHR '','') ?raw)"
    and q: "q = py_strip x" "py_strip x \<noteq> []"
    by (auto simp: parse_queries_def Let_def)
  have nc: "ch CHR '','' \<notin> set x"
    using split_where_free [of "\<lambda>c. c = ch CHR '',''" ?raw] x by (auto simp: py_split_def)
  have "\<forall>p \<in> set (split_where P s). set p \<subseteq> set s" for P s
    by (induction s) (auto split: list.splits)
  then have "set x \<subseteq> set ?raw"
    using x unfolding py_split_def by blast
  moreover have "fullwidth_comma \<notin> set ?raw"
    by (auto simp: replace_char_def fullwidth_comma_def)
  ultimately have nf: "fullwidth_comma \<notin> set x" by blast
  have "set q \<subseteq> set x" unfolding q py_strip_def by (rule set_strip_chars)
  with nc nf have "ch CHR '','' \<notin> set q" "fullwidth_comma \<notin> set q" by blast+
  moreover have "q \<noteq> []" "py_strip q = q" using q by (simp_all add: py_strip_idem)
  ultimately show ?thesis by blast
qed

text \<open>
  C9. For a text of at least 10 characters and a generator that returns a non-empty
  list, \<open>extract_core_querys\<close> returns the pieces of the first generated string:
  full-width commas are replaced by commas before the split at commas, so no piece
  contains either; every piece is trimmed and none is empty. When the generator returns
  \<open>A\<close>, \<open>B\<close>, \<open>C\<close> separated by full-width commas the result is the three letters.
\<close>

theorem sub_queries_split:
  assumes "10 \<le> length text" and "gen w (QueryPrompt text) = (Inr (r # rs), w')"
  shows "extract_core_querys gen w text = (Inr (parse_queries r), w') \<and>
         (\<forall>q \<in> set (parse_queries r).
            q \<noteq> [] \<and> py_strip q = q \<and> ch CHR '','' \<notin> set q \<and> fullwidth_comma \<notin> set q) \<and>
         (r = [ch CHR ''A'', fullwidth_comma, ch CHR ''B'', fullwidth_comma, ch CHR ''C''] \<longrightarrow>
            extract_core_querys gen w text = (Inr [ustr ''A'', ustr ''B'', ustr ''C''], w'))"
proof -
  have 1: "extract_core_querys gen w text = (Inr (parse_queries r), w')"
    using assms by (simp add: extract_core_querys_def querys_try_def)
  have 2: "parse_queries [ch CHR ''A'', fullwidth_comma, ch CHR ''B'', fullwidth_comma, ch CHR ''C'']
           = [ustr ''A'', ustr ''B'', ustr ''C'']"
    by (simp add: parse_queries_def replace_char_def fullwidth_comma_def str_eval)
  have 3: "\<forall>q \<in> set (parse_queries r).
            q \<noteq> [] \<and> py_strip q = q \<and> ch CHR '','' \<notin> set q \<and> fullwidth_comma \<notin> set q"
    using parse_queries_props by blast
  have 4: "r = [ch CHR ''A'', fullwidth_comma, ch CHR ''B'', fullwidth_comma, ch CHR ''C''] \<longrightarrow>
            extract_core_querys gen w text = (Inr [ustr ''A'', ustr ''B'', ustr ''C''], w')"
    using 1 2 by simp
  show ?thesis by (rule conjI [OF 1 conjI [OF 3 4]])
qed

theorem sub_queries_split_witness:
  "10 \<le> length (ustr ''Who is Ringo?'') \<and>
   const_gen [ch CHR ''A'', fullwidth_comma, ch CHR ''B'', fullwidth_comma, ch CHR ''C''] ()
       (QueryPrompt (ustr ''Who is Ringo?'')) =
     (Inr [[ch CHR ''A'', fullwidth_comma, ch CHR ''B'', fullwidth_comma, ch CHR ''C'']], ()) \<and>
   extract_core_querys
       (const_gen [ch CHR ''A'', fullwidth_comma, ch CHR ''B'', fullwidth_comma, ch CHR ''C''])
       () (ustr ''Who is Ringo?'') =
     (Inr [ustr ''A'', ustr ''B'', ustr ''C''], ())"
proof -
  let ?r = "[ch CHR ''A'', fullwidth_comma, ch CHR ''B'', fullwidth_comma, ch CHR ''C'']"
  let ?t = "ustr ''Who is Ringo?''"
  have 1: "10 \<le> length ?t"
    by (simp add: ustr_def)
  have 2: "const_gen ?r () (QueryPrompt ?t) = (Inr (?r # []), ())"
    by (simp add: const_gen_def)
  from sub_queries_split [where gen = "const_gen ?r" and w = "()", OF 1 2] 1 2
  show ?thesis by blast
qed

lemma try_lengths_bounds: "try_lengths U rest lo m = Some j \<Longrightarrow> lo \<le> j \<and> j \<le> m"
  by (induction m) (auto split: if_splits)

lemma match_word_bounds:
  assumes "match_word U lo (Some hi) prev rest = Some j"
  shows "lo \<le> j \<and> j \<le> hi \<and> j \<le> length (takeWhile is_ascii_letter rest)"
  using assms try_lengths_bounds [of U rest lo "min (length (takeWhile is_ascii_letter rest)) hi" j]
  by (auto simp: match_word_def Let_def split: if_splits)

lemma take_takeWhile_all:
  "j \<le> length (takeWhile P xs) \<Longrightarrow> list_all P (take j xs)"
proof (induction xs arbitrary: j)
  case Nil then show ?case by simp
next
  case (Cons x xs)
  then show ?case by (cases j) (auto split: if_splits)
qed

lemma findall_words_props:
  "\<forall>t \<in> set (findall_words U lo (Some hi) prev s).
     lo \<le> length t \<and> length t \<le> hi \<and> list_all is_ascii_letter t"
proof (induction U lo "Some hi" prev s rule: findall_words.induct)
  case (1 U lo prev)
  then show ?case by simp
next
  case (2 U lo prev c cs)
  show ?case
  proof (cases "match_word U lo (Some hi) prev (c # cs)")
    case None
    with 2 show ?thesis by simp
  next
    case (Some j)
    show ?thesis
    proof (cases j)
      case 0
      with Some 2 show ?thesis by simp
    next
      case (Suc k)
      from match_word_bounds [OF Some] Suc
      have b: "lo \<le> Suc k" "Suc k \<le> hi" "Suc k \<le> length (takeWhile is_ascii_letter (c # cs))"
        by auto
      have "list_all is_ascii_letter (take (Suc k) (c # cs))"
        using b(3) by (rule take_takeWhile_all)
      moreover have "length (take (Suc k) (c # cs)) = Suc k"
        using b(3) length_takeWhile_le [of is_ascii_letter "c # cs"] by simp
      ultimately show ?thesis using 2 Some Suc b by simp
    qed
  qed
qed

lemma findall_digits_props:
  "\<forall>t \<in> set (findall_digits U s). t \<noteq> [] \<and> list_all (re_digit U) t"
proof (induction U s rule: findall_digits.induct)
  case (1 U) then show ?case by simp
next
  case (2 U c cs)
  have "list_all (re_digit U) (takeWhile (re_digit U) cs)"
    by (simp add: list_all_iff) (meson set_takeWhileD)
  with 2 show ?case by auto
qed

text \<open>
  C4. For a text of at least 10 characters and a generator whose call raises,
  \<open>extract_core_entities\<close> returns the fallback keywords, which depend on the text
  alone: the first 6 matches of \<open>\b[A-Za-z]{2,15}\b\<close> followed by the first 3 matches
  of \<open>\d+\<close>, or the first 30 characters of the text when nothing matches. The result is
  never empty and has at most 10 elements; the word matches consist of 2 to 15 ASCII
  letters and the number matches of at least one digit.
\<close>

theorem keywords_fallback:
  assumes "10 \<le> length text" and "gen w (EntityPrompt text) = (Inl e, w')"
  shows "extract_core_entities U gen w text = (Inr (keyword_fallback U text), w') \<and>
         keyword_fallback U text \<noteq> [] \<and> length (keyword_fallback U text) \<le> 10 \<and>
         keyword_fallback U text =
           (let words = findall_words U 2 (Some 15) None text;
                numbers = findall_digits U text
            in if words = [] \<and> numbers = [] then [take 30 text]
               else take 6 words @ take 3 numbers) \<and>
         (\<forall>t \<in> set (findall_words U 2 (Some 15) None text).
            2 \<le> length t \<and> length t \<le> 15 \<and> list_all is_ascii_letter t) \<and>
         (\<forall>t \<in> set (findall_digits U text). t \<noteq> [] \<and> list_all (re_digit U) t)"
proof (intro conjI)
  show "extract_core_entities U gen w text = (Inr (keyword_fallback U text), w')"
    using assms by (simp add: extract_core_entities_def entities_try_def)
  show "keyword_fallback U text \<noteq> []"
    by (simp add: keyword_fallback_def Let_def)
  show "length (keyword_fallback U text) \<le> 10"
    by (simp add: keyword_fallback_def Let_def min_def)
  show "keyword_fallback U text =
           (let words = findall_words U 2 (Some 15) None text;
                numbers = findall_digits U text
            in if words = [] \<and> numbers = [] then [take 30 text]
               else take 6 words @ take 3 numbers)"
    by (simp add: keyword_fallback_def Let_def)
  show "\<forall>t \<in> set (findall_words U 2 (Some 15) None text).
            2 \<le> length t \<and> length t \<le> 15 \<and> list_all is_ascii_letter t"
    by (rule findall_words_props)
  show "\<forall>t \<in> set (findall_digits U text). t \<noteq> [] \<and> list_all (re_digit U) t"
    by (rule findall_digits_props)
qed

lemma try_lengths_unfold:
  "try_lengths U rest lo m =
     (if m = 0 then None
      else if m < lo then None
      else if at_boundary U (Some (rest ! (m - 1))) (drop m rest) then Some m
      else try_lengths U rest lo (m - 1))"
  by (cases m) auto

lemmas regex_eval = match_word_def at_boundary_def re_word_def re_digit_def is_ascii_letter_def
  is_ascii_digit_def py_lower_def ascii_lower_def latin_words_def Let_def

theorem keywords_fallback_witness:
  "10 \<le> length (ustr ''Who joined the band at age 26 in 1990?'') \<and>
   raising_gen () (EntityPrompt (ustr ''Who joined the band at age 26 in 1990?'')) =
     (Inl GeneratorError, ()) \<and>
   extract_core_entities ascii_ucd raising_gen () (ustr ''Who joined the band at age 26 in 1990?'') =
     (Inr (map ustr [''Who'', ''joined'', ''the'', ''band'', ''at'', ''age'', ''26'', ''1990'']), ())"
proof -
  let ?t = "ustr ''Who joined the band at age 26 in 1990?''"
  have 1: "10 \<le> length ?t"
    by (simp add: ustr_def)
  have 2: "raising_gen () (EntityPrompt ?t) = (Inl GeneratorError, ())"
    by (simp add: raising_gen_def)
  have 3: "keyword_fallback ascii_ucd ?t =
      map ustr [''Who'', ''joined'', ''the'', ''band'', ''at'', ''age'', ''26'', ''1990'']"
    by (simp add: keyword_fallback_def regex_eval ustr_def try_lengths_unfold)
  from keywords_fallback [where gen = raising_gen and w = "()" and U = ascii_ucd, OF 1 2]
  have "extract_core_entities ascii_ucd raising_gen () ?t = (Inr (keyword_fallback ascii_ucd ?t), ())"
    by blast
  with 1 2 3 show ?thesis by simp
qed

lemma sparse_append:
  "sparse P (a @ b) \<longleftrightarrow>
     sparse P a \<and> sparse P b \<and> (a = [] \<or> b = [] \<or> P (last a) \<or> P (hd b))"
proof (induction a)
  case Nil then show ?case by simp
next
  case (Cons x a)
  show ?case
  proof (cases a)
    case Nil
    then show ?thesis by (cases b) auto
  next
    case (Cons y ys)
    with Cons.IH show ?thesis by auto
  qed
qed

lemma sparse_infix: "sparse P (a @ b @ c) \<Longrightarrow> sparse P b"
  by (simp add: sparse_append)

lemma sparse_strip: "sparse P s \<Longrightarrow> sparse P (strip_chars Q s)"
  using strip_chars_infix [of s Q] sparse_infix by metis

lemma sparse_drop: "sparse P s \<Longrightarrow> sparse P (drop n s)"
  using sparse_infix [of P "take n s" "drop n s" "[]"] by simp

lemma sparse_strip_prefixes: "sparse P s \<Longrightarrow> sparse P (strip_prefixes ps s)"
  by (induction ps arbitrary: s) (auto simp: py_strip_def sparse_strip sparse_drop)

lemma sparse_none: "\<forall>c \<in> set s. \<not> P c \<Longrightarrow> sparse P s \<longleftrightarrow> length s \<le> 1"
  by (induction P s rule: sparse.induct) auto

lemma sparse_all: "\<forall>c \<in> set s. P c \<Longrightarrow> sparse P s"
  by (induction P s rule: sparse.induct) auto

lemma sparse_dropWhile: "sparse P (dropWhile P s) \<longleftrightarrow> sparse P s"
proof -
  have "sparse P (takeWhile P s @ dropWhile P s) \<longleftrightarrow> sparse P (dropWhile P s)"
    unfolding sparse_append
    using sparse_all [of "takeWhile P s" P] 
    by (auto dest: set_takeWhileD simp: last_in_set) (metis last_in_set set_takeWhileD takeWhile_eq_Nil_iff)+
  then show ?thesis by simp
qed

lemma split_runs_sparse:
  "(\<forall>t \<in> set (split_runs P s). length t \<le> 1) \<longleftrightarrow> sparse P s"
proof (induction P s rule: split_runs.induct)
  case (1 P s)
  let ?a = "takeWhile (\<lambda>c. \<not> P c) s"
  have a: "\<forall>c \<in> set ?a. \<not> P c" by (auto dest: set_takeWhileD)
  show ?case
  proof (cases "dropWhile (\<lambda>c. \<not> P c) s")
    case Nil
    then have "\<forall>c \<in> set s. \<not> P c" by (metis dropWhile_eq_Nil_conv)
    then show ?thesis by (simp add: split_runs.simps [of P s] Nil sparse_none)
  next
    case (Cons x rest)
    then have Px: "P x" using hd_dropWhile [of "\<lambda>c. \<not> P c" s] by simp
    have s: "s = ?a @ x # rest" using Cons by (metis takeWhile_dropWhile_id)
    have "sparse P s \<longleftrightarrow> sparse P ?a \<and> sparse P (x # rest)"
      by (subst s, subst sparse_append) (simp add: Px)
    also have "sparse P (x # rest) \<longleftrightarrow> sparse P (dropWhile P (x # rest))"
      by (simp only: sparse_dropWhile)
    also have "dropWhile P (x # rest) = dropWhile P rest" using Px by simp
    finally have "sparse P s \<longleftrightarrow> length ?a \<le> 1 \<and> sparse P (dropWhile P rest)"
      using sparse_none [OF a] by simp
    with 1 [OF Cons] show ?thesis by (simp add: split_runs.simps [of P s] Cons)
  qed
qed

lemma parse_entities_short:
  assumes "\<forall>tok \<in> set (split_runs is_comma_or_space r). length tok \<le> 1"
  shows "parse_entities r = []"
proof -
  have "sparse is_comma_or_space r" using assms by (rule iffD1 [OF split_runs_sparse])
  then have "sparse is_comma_or_space (strip_prefixes entity_prefixes (py_strip r))"
    by (simp add: sparse_strip_prefixes sparse_strip py_strip_def)
  then have "\<forall>t \<in> set (split_runs is_comma_or_space (strip_prefixes entity_prefixes (py_strip r))). length t \<le> 1"
    by (rule iffD2 [OF split_runs_sparse])
  then have "filter (\<lambda>e. py_strip e \<noteq> [] \<and> length e > 1)
     (split_runs is_comma_or_space (strip_prefixes entity_prefixes (py_strip r))) = []"
    by (auto simp: filter_empty_conv)
  then show ?thesis by (simp add: parse_entities_def Let_def)
qed

text \<open>
  C10. When the generator returns a non-empty list and every piece of its first string
  between runs of commas and white space has at most one character,
  \<open>extract_core_entities\<close> returns the empty list: the fallback is not taken. The
  search query of the pipeline is then the core question.
\<close>

theorem short_tokens_empty_keywords:
  assumes "10 \<le> length text"
    and "extract_question_with_llm gen w0 text = (Inr core_question, w)"
    and "gen w (EntityPrompt text) = (Inr (r # rs), w')"
    and "\<forall>tok \<in> set (split_runs is_comma_or_space r). length tok \<le> 1"
  shows "extract_core_entities U gen w text = (Inr [], w') \<and>
         decompose U gen w0 text = (Inr (core_question, [], core_question), w')"
proof -
  have "extract_core_entities U gen w text = (Inr [], w')"
    using assms(1,3) parse_entities_short [OF assms(4)]
    by (simp add: extract_core_entities_def entities_try_def)
  then show ?thesis using assms(2) by (simp add: decompose_def)
qed

theorem short_tokens_empty_keywords_witness:
  "10 \<le> length (ustr ''Who is Ringo?'') \<and>
   extract_question_with_llm (const_gen (ustr ''a b c'')) () (ustr ''Who is Ringo?'') =
     (Inr (ustr ''Who is Ringo?''), ()) \<and>
   const_gen (ustr ''a b c'') () (EntityPrompt (ustr ''Who is Ringo?'')) =
     (Inr [ustr ''a b c''], ()) \<and>
   split_runs is_comma_or_space (ustr ''a b c'') = [ustr ''a'', ustr ''b'', ustr ''c''] \<and>
   extract_core_entities ascii_ucd (const_gen (ustr ''a b c'')) () (ustr ''Who is Ringo?'') =
     (Inr [], ()) \<and>
   decompose ascii_ucd (const_gen (ustr ''a b c'')) () (ustr ''Who is Ringo?'') =
     (Inr (ustr ''Who is Ringo?'', [], ustr ''Who is Ringo?''), ())"
proof -
  let ?t = "ustr ''Who is Ringo?''"
  let ?g = "const_gen (ustr ''a b c'')"
  have 1: "10 \<le> length ?t"
    by (simp add: ustr_def)
  have 2: "extract_question_with_llm ?g () ?t = (Inr ?t, ())"
    by (simp add: extract_question_with_llm_def ustr_def)
  have 3: "?g () (EntityPrompt ?t) = (Inr (ustr ''a b c'' # []), ())"
    by (simp add: const_gen_def)
  have 5: "split_runs is_comma_or_space (ustr ''a b c'') = [ustr ''a'', ustr ''b'', ustr ''c'']"
    by (simp add: split_runs.simps is_comma_or_space_def py_isspace_def ustr_def)
  have 4: "\<forall>tok \<in> set (split_runs is_comma_or_space (ustr ''a b c'')). length tok \<le> 1"
    unfolding 5 by (simp add: ustr_def)
  from short_tokens_empty_keywords [where gen = ?g and w = "()" and ?w0.0 = "()" and U = ascii_ucd,
      OF 1 2 3 4] 1 2 3 5
  show ?thesis by blast
qed


section \<open>The relevance extractor\<close>

lemma card_inter_set:
  "card (set xs \<inter> set ys) = length (remdups (filter (\<lambda>x. x \<in> set ys) xs))"
proof -
  have "set xs \<inter> set ys = set (remdups (filter (\<lambda>x. x \<in> set ys) xs))" by auto
  then show ?thesis by (simp only: distinct_card [OF distinct_remdups])
qed

lemma question_words_example: "latin_words U (ustr ''What is the capital of France?'') =
   map ustr [''what'', ''is'', ''the'', ''capital'', ''of'', ''france'']"
  by (simp add: regex_eval ustr_def try_lengths_unfold)

lemma document_words_example: "latin_words U (ustr ''Paris is the capital of France. It is known for the Eiffel Tower.'') =
   map ustr [''paris'', ''is'', ''the'', ''capital'', ''of'', ''france'', ''it'', ''is'', ''known'', ''for'', ''the'', ''eiffel'', ''tower'']"
  by (simp add: regex_eval ustr_def try_lengths_unfold)

lemma score_example: "sentence_score U (latin_words U (ustr ''What is the capital of France?''))
    (ustr ''Paris is the capital of France. It is known for the Eiffel Tower.'') = 5"
  unfolding sentence_score_def question_words_example document_words_example card_inter_set by (simp add: ustr_def)

lemma doc_sentences_example: "doc_sentences (ustr ''Paris is the capital of France. It is known for the Eiffel Tower.'')
  = [ustr ''Paris is the capital of France. It is known for the Eiffel Tower.'']"
  by (simp add: doc_sentences_def split_runs.simps is_sentence_break_def str_eval)

text \<open>
  C6. On the one document \<open>Paris is the capital of France. It is known for the Eiffel
  Tower.\<close> with the question \<open>What is the capital of France?\<close> and a cap of 2,
  \<open>extract_relevant_sentences\<close> returns the document unchanged: no sentence break splits
  it, it is longer than 10 characters, and it shares 5 Latin words with the question. On
  an empty document list the result is the empty string for every question and cap.
\<close>

theorem relevant_sentences_example:
  "extract_relevant_sentences U
     [ustr ''Paris is the capital of France. It is known for the Eiffel Tower.'']
     (ustr ''What is the capital of France?'') 2
   = ustr ''Paris is the capital of France. It is known for the Eiffel Tower.'' \<and>
   split_runs is_sentence_break (ustr ''Paris is the capital of France. It is known for the Eiffel Tower.'')
   = [ustr ''Paris is the capital of France. It is known for the Eiffel Tower.''] \<and>
   length (ustr ''Paris is the capital of France. It is known for the Eiffel Tower.'') > 10 \<and>
   sentence_score U (latin_words U (ustr ''What is the capital of France?''))
    (ustr ''Paris is the capital of France. It is known for the Eiffel Tower.'') = 5 \<and>
   extract_relevant_sentences U [] q n = []"
proof -
  have 1: "extract_relevant_sentences U
     [ustr ''Paris is the capital of France. It is known for the Eiffel Tower.'']
     (ustr ''What is the capital of France?'') 2
   = ustr ''Paris is the capital of France. It is known for the Eiffel Tower.''"
    unfolding extract_relevant_sentences_def Let_def
    by (simp add: score_example doc_sentences_example py_take_def)
  have 2: "split_runs is_sentence_break (ustr ''Paris is the capital of France. It is known for the Eiffel Tower.'')
   = [ustr ''Paris is the capital of France. It is known for the Eiffel Tower.'']"
    by (simp add: split_runs.simps is_sentence_break_def ustr_def)
  have 3: "length (ustr ''Paris is the capital of France. It is known for the Eiffel Tower.'') > 10"
    by (simp add: ustr_def)
  have 4: "extract_relevant_sentences U [] q n = []"
    by (simp add: extract_relevant_sentences_def)
  from 1 2 3 score_example 4 show ?thesis by (intro conjI)
qed

section \<open>The pipeline\<close>

lemma logged_apply:
  "logged gen (w, log) p = (fst (gen w p), (snd (gen w p), log @ [p]))"
  by (simp add: logged_def split: prod.splits)

lemma extract_question_logged:
  "\<exists>core w1. extract_question_with_llm (logged gen) (w, log) text =
     (Inr core, (w1, log @ (if 20 \<le> length text then [ExtractPrompt text] else [])))"
  by (cases "gen w (ExtractPrompt text)")
     (auto simp: extract_question_with_llm_def question_try_def logged_apply Let_def
           split: sum.splits list.splits)

lemma extract_core_entities_logged:
  "\<exists>entities w1. extract_core_entities U (logged gen) (w, log) text =
     (Inr entities, (w1, log @ (if 10 \<le> length text then [EntityPrompt text] else [])))"
  by (cases "gen w (EntityPrompt text)")
     (auto simp: extract_core_entities_def entities_try_def logged_apply Let_def
           split: sum.splits list.splits)

lemma extract_core_querys_logged:
  "\<exists>queries w1. extract_core_querys (logged gen) (w, log) text =
     (Inr queries, (w1, log @ (if 10 \<le> length text then [QueryPrompt text] else [])))"
  by (cases "gen w (QueryPrompt text)")
     (auto simp: extract_core_querys_def querys_try_def logged_apply Let_def
           split: sum.splits list.splits)

lemma decompose_logged:
  "\<exists>core entities w2.
     decompose U (logged gen) (w, log) text =
       (Inr (core, entities, if entities = [] then core else py_join [32] entities),
        (w2, log @ (if 20 \<le> length text then [ExtractPrompt text] else []) @
                   (if 10 \<le> length text then [EntityPrompt text] else [])))"
proof -
  let ?l1 = "log @ (if 20 \<le> length text then [ExtractPrompt text] else [])"
  obtain core w1 where 1: "extract_question_with_llm (logged gen) (w, log) text = (Inr core, (w1, ?l1))"
    using extract_question_logged [of gen w log "text"] by auto
  obtain entities w2 where 2:
    "extract_core_entities U (logged gen) (w1, ?l1) text =
       (Inr entities, (w2, ?l1 @ (if 10 \<le> length text then [EntityPrompt text] else [])))"
    using extract_core_entities_logged [of U gen w1 ?l1 "text"] by auto
  show ?thesis by (simp add: decompose_def 1 2)
qed

text \<open>
  C2, as stated: the Decompose stage runs all three routines of the decomposer. The
  sub-query routine \<open>extract_core_querys\<close> sends its own prompt to the generator for
  every text of at least 10 characters, and the stage never sends that prompt: it calls
  the two other routines only.
\<close>

theorem decompose_counterexample:
  "10 \<le> length (ustr ''Who wrote the novel Dune?'') \<and>
   snd (snd (extract_core_querys (logged (const_gen (ustr ''Frank Herbert''))) ((), [])
      (ustr ''Who wrote the novel Dune?''))) = [QueryPrompt (ustr ''Who wrote the novel Dune?'')] \<and>
   snd (snd (decompose ascii_ucd (logged (const_gen (ustr ''Frank Herbert''))) ((), [])
      (ustr ''Who wrote the novel Dune?''))) =
     [ExtractPrompt (ustr ''Who wrote the novel Dune?''), EntityPrompt (ustr ''Who wrote the novel Dune?'')] \<and>
   QueryPrompt (ustr ''Who wrote the novel Dune?'') \<notin>
     set (snd (snd (decompose ascii_ucd (logged (const_gen (ustr ''Frank Herbert''))) ((), [])
      (ustr ''Who wrote the novel Dune?''))))"
proof -
  let ?t = "ustr ''Who wrote the novel Dune?''"
  let ?g = "logged (const_gen (ustr ''Frank Herbert''))"
  have l: "length ?t = 25" by (simp add: ustr_def)
  have 1: "snd (snd (extract_core_querys ?g ((), []) ?t)) = [QueryPrompt ?t]"
    using extract_core_querys_logged [of "const_gen (ustr ''Frank Herbert'')" "()" "[]" ?t]
    by (auto simp: l)
  have 2: "snd (snd (decompose ascii_ucd ?g ((), []) ?t)) = [ExtractPrompt ?t, EntityPrompt ?t]"
    using decompose_logged [of ascii_ucd "const_gen (ustr ''Frank Herbert'')" "()" "[]" ?t]
    by (auto simp: l)
  show ?thesis using 1 2 l by simp
qed

text \<open>
  C2, amended: for every question the Decompose stage runs two routines, core-question
  extraction and then keyword extraction (each calls the generator at most once, for a
  text of at least 20 and 10 characters respectively), and never the sub-query
  decomposition; its search query is the keywords joined with spaces, or the core
  question when the keyword list is empty.
\<close>

theorem decompose_two_routines:
  "\<exists>core entities s1 w2 log.
     extract_question_with_llm (logged gen) (w, []) text = (Inr core, s1) \<and>
     extract_core_entities U (logged gen) s1 text = (Inr entities, (w2, log)) \<and>
     decompose U (logged gen) (w, []) text =
       (Inr (core, entities, if entities = [] then core else py_join [32] entities), (w2, log)) \<and>
     log = (if 20 \<le> length text then [ExtractPrompt text] else []) @
           (if 10 \<le> length text then [EntityPrompt text] else []) \<and>
     (\<forall>t. QueryPrompt t \<notin> set log)"
proof -
  let ?l1 = "if 20 \<le> length text then [ExtractPrompt text] else []"
  let ?l2 = "if 10 \<le> length text then [EntityPrompt text] else []"
  obtain core w1 where 1: "extract_question_with_llm (logged gen) (w, []) text = (Inr core, (w1, ?l1))"
    using extract_question_logged [of gen w "[]" "text"] by auto
  obtain entities w2 where 2:
    "extract_core_entities U (logged gen) (w1, ?l1) text = (Inr entities, (w2, ?l1 @ ?l2))"
    using extract_core_entities_logged [of U gen w1 ?l1 "text"] by auto
  have 3: "decompose U (logged gen) (w, []) text =
       (Inr (core, entities, if entities = [] then core else py_join [32] entities), (w2, ?l1 @ ?l2))"
    by (simp add: decompose_def 1 2)
  have 4: "\<forall>t. QueryPrompt t \<notin> set (?l1 @ ?l2)" by simp
  show ?thesis
    by (rule exI [of _ core], rule exI [of _ entities], rule exI [of _ "(w1, ?l1)"],
        rule exI [of _ w2], rule exI [of _ "?l1 @ ?l2"]) (use 1 2 3 4 in simp)
qed

lemma startswith_iff: "startswith s p \<longleftrightarrow> (\<exists>v. s = p @ v)"
  unfolding startswith_def by (metis append_eq_conv_conj append_take_drop_id)

lemma py_contains_iff: "py_contains s sub \<longleftrightarrow> (\<exists>u v. s = u @ sub @ v)"
proof (induction s)
  case Nil
  then show ?case by auto
next
  case (Cons x xs)
  show ?case
  proof
    assume "py_contains (x # xs) sub"
    then consider "startswith (x # xs) sub" | "py_contains xs sub" by auto
    then show "\<exists>u v. x # xs = u @ sub @ v"
    proof cases
      case 1
      then obtain v where "x # xs = sub @ v" by (auto simp: startswith_iff)
      then have "x # xs = [] @ sub @ v" by simp
      then show ?thesis by blast
    next
      case 2
      with Cons obtain u v where "xs = u @ sub @ v" by blast
      then have "x # xs = (x # u) @ sub @ v" by simp
      then show ?thesis by blast
    qed
  next
    assume "\<exists>u v. x # xs = u @ sub @ v"
    then obtain u v where uv: "x # xs = u @ sub @ v" by blast
    show "py_contains (x # xs) sub"
    proof (cases u)
      case Nil
      with uv have "startswith (x # xs) sub" by (auto simp: startswith_iff)
      then show ?thesis by simp
    next
      case (Cons y ys)
      with uv have "xs = ys @ sub @ v" by simp
      with Cons.IH show ?thesis by auto
    qed
  qed
qed

lemma needs_retry_iff:
  "needs_retry t \<longleftrightarrow> length t < 2 \<or> (\<exists>bad \<in> set leak_words. \<exists>u v. t = u @ bad @ v)"
  by (simp add: needs_retry_def list_ex_iff py_contains_iff)

text \<open>
  C3. When the generator returns an answer \<open>a\<close> and \<open>t\<close> is the cleaned answer: the
  retry prompt is sent exactly when \<open>t\<close> has fewer than 2 characters or contains one of
  the four leak words as a substring; the generator is called once more at most; and
  when the retry returns a string, its cleaned form is the final answer, with no second
  validation.
\<close>

theorem quality_gate:
  assumes "gen w (AnswerPrompt ctx q) = (Inr (a # rest), w1)"
    and "clean_answer_aggressive (py_strip a) = Inr t"
  shows "(needs_retry t \<longleftrightarrow> length t < 2 \<or> (\<exists>bad \<in> set leak_words. \<exists>u v. t = u @ bad @ v)) \<and>
         snd (snd (generate_answer (logged gen) (w, []) ctx q)) =
           (if needs_retry t then [AnswerPrompt ctx q, SimplePrompt ctx q]
            else [AnswerPrompt ctx q]) \<and>
         (\<not> needs_retry t \<longrightarrow> generate_answer gen w ctx q = (t, w1)) \<and>
         (needs_retry t \<longrightarrow>
            (\<forall>r rs w2 t'. gen w1 (SimplePrompt ctx q) = (Inr (r # rs), w2) \<and>
                 clean_answer_aggressive r = Inr t' \<longrightarrow>
               generate_answer gen w ctx q = (t', w2)))"
proof (intro conjI)
  show "needs_retry t \<longleftrightarrow> length t < 2 \<or> (\<exists>bad \<in> set leak_words. \<exists>u v. t = u @ bad @ v)"
    by (rule needs_retry_iff)
  show "snd (snd (generate_answer (logged gen) (w, []) ctx q)) =
           (if needs_retry t then [AnswerPrompt ctx q, SimplePrompt ctx q]
            else [AnswerPrompt ctx q])"
    using assms
    by (cases "gen w1 (SimplePrompt ctx q)")
       (auto simp: generate_answer_def logged_apply split: sum.splits list.splits)
  show "\<not> needs_retry t \<longrightarrow> generate_answer gen w ctx q = (t, w1)"
    using assms by (simp add: generate_answer_def)
  show "needs_retry t \<longrightarrow>
            (\<forall>r rs w2 t'. gen w1 (SimplePrompt ctx q) = (Inr (r # rs), w2) \<and>
                 clean_answer_aggressive r = Inr t' \<longrightarrow>
               generate_answer gen w ctx q = (t', w2))"
    using assms by (simp add: generate_answer_def)
qed

theorem quality_gate_witness:
  "const_gen (ustr ''information'') () (AnswerPrompt [] (ustr ''Who?'')) =
     (Inr [ustr ''information''], ()) \<and>
   clean_answer_aggressive (py_strip (ustr ''information'')) = Inr (ustr ''information'') \<and>
   needs_retry (ustr ''information'') \<and>
   const_gen (ustr ''information'') () (SimplePrompt [] (ustr ''Who?'')) =
     (Inr [ustr ''information''], ()) \<and>
   clean_answer_aggressive (ustr ''information'') = Inr (ustr ''information'') \<and>
   snd (snd (generate_answer (logged (const_gen (ustr ''information''))) ((), []) [] (ustr ''Who?''))) =
     [AnswerPrompt [] (ustr ''Who?''), SimplePrompt [] (ustr ''Who?'')] \<and>
   generate_answer (const_gen (ustr ''information'')) () [] (ustr ''Who?'') =
     (ustr ''information'', ())"
proof -
  let ?g = "const_gen (ustr ''information'')"
  let ?q = "ustr ''Who?''"
  have 1: "?g () (AnswerPrompt [] ?q) = (Inr (ustr ''information'' # []), ())"
    by (simp add: const_gen_def)
  have 2: "clean_answer_aggressive (py_strip (ustr ''information'')) = Inr (ustr ''information'')"
    by (simp add: str_eval clean_eval)
  have 3: "needs_retry (ustr ''information'')"
    by (simp add: needs_retry_def leak_words_def str_eval)
  have 4: "?g () (SimplePrompt [] ?q) = (Inr (ustr ''information'' # []), ())"
    by (simp add: const_gen_def)
  have 5: "clean_answer_aggressive (ustr ''information'') = Inr (ustr ''information'')"
    by (simp add: str_eval clean_eval)
  note qg = quality_gate [where gen = ?g and w = "()" and ctx = "[]" and q = ?q, OF 1 2]
  from qg 3 have 6: "snd (snd (generate_answer (logged ?g) ((), []) [] ?q)) =
     [AnswerPrompt [] ?q, SimplePrompt [] ?q]" by simp
  from qg 3 4 5 have 7: "generate_answer ?g () [] ?q = (ustr ''information'', ())" by blast
  from 1 2 3 4 5 6 7 show ?thesis by simp
qed

lemma newline_indent_0: "newline_indent 0 = [10]"
  by (simp add: newline_indent_def)

lemma newline_indent_1: "newline_indent (Suc 0) = [10, 32, 32]"
  by (simp add: newline_indent_def numeral_2_eq_2)

lemmas json_eval = json_string_def json_escape_def newline_indent_0 newline_indent_1
  hex_digit_def str_of_int_def

lemma extract_question_total: "\<exists>q w'. extract_question_with_llm gen w text = (Inr q, w')"
  by (auto simp: extract_question_with_llm_def split: prod.splits sum.splits option.splits)

lemma extract_core_entities_total: "\<exists>es w'. extract_core_entities U gen w text = (Inr es, w')"
  by (auto simp: extract_core_entities_def split: prod.splits sum.splits option.splits)

lemma answer_question_total: "\<exists>a w'. answer_question U gen search w text = (Inr a, w')"
proof -
  obtain c w1 where 1: "extract_question_with_llm gen w text = (Inr c, w1)"
    using extract_question_total [of gen w "text"] by auto
  obtain es w2 where 2: "extract_core_entities U gen w1 text = (Inr es, w2)"
    using extract_core_entities_total [of U gen w1 "text"] by auto
  show ?thesis
    by (simp add: answer_question_def decompose_def 1 2 Let_def split: prod.splits)
qed

lemma run_questions_records:
  assumes "list_all string_entry qs"
  shows "\<exists>answers w'.
           run_questions U gen search i qs w out =
             (None,
              out @ concat (map record_line
                              (zip (filter (\<lambda>e. valid_entry (snd e)) (enumerate i qs)) answers)),
              w') \<and>
           length answers = length (filter valid_entry qs)"
  using assms
proof (induction qs arbitrary: i w out)
  case Nil
  then show ?case by simp
next
  case (Cons q qs)
  then have rest: "list_all string_entry qs" by simp
  show ?case
  proof (cases "valid_entry q")
    case False
    then have "run_questions U gen search i (q # qs) w out = run_questions U gen search (Suc i) qs w out"
      by (auto simp: valid_entry_def split: json.splits option.splits)
    with Cons.IH [OF rest, of "Suc i" w out] False show ?thesis by simp
  next
    case True
    with Cons.prems obtain obj question_text where q: "q = JObj obj"
      and f: "map_of obj (ustr ''input_field'') = Some (JStr question_text)"
      by (auto simp: valid_entry_def string_entry_def split: json.splits option.splits)
    obtain a w1 where a: "answer_question U gen search w question_text = (Inr a, w1)"
      using answer_question_total [of U gen search w question_text] by auto
    have step: "run_questions U gen search i (q # qs) w out =
       run_questions U gen search (Suc i) qs w1 (out @ record_line ((i, q), a))"
      by (simp add: q f a record_line_def entry_id_def Let_def)
    from Cons.IH [OF rest, of "Suc i" w1 "out @ record_line ((i, q), a)"]
    obtain answers w' where r: "run_questions U gen search (Suc i) qs w1 (out @ record_line ((i, q), a)) =
             (None,
              (out @ record_line ((i, q), a)) @ concat (map record_line
                              (zip (filter (\<lambda>e. valid_entry (snd e)) (enumerate (Suc i) qs)) answers)),
              w')" and l: "length answers = length (filter valid_entry qs)"
      by blast
    have "run_questions U gen search i (q # qs) w out =
             (None,
              out @ concat (map record_line
                 (zip (filter (\<lambda>e. valid_entry (snd e)) (enumerate i (q # qs))) (a # answers))),
              w') \<and> length (a # answers) = length (filter valid_entry (q # qs))"
      using True step r l by simp
    then show ?thesis by blast
  qed
qed

lemma record_line_newlines: "4 \<le> length (filter (\<lambda>c. c = 10) (record_line ((i, q), answer)))"
  by (simp add: record_line_def newline_indent_0 newline_indent_1)

text \<open>
  C7. One record per valid entry, in input order, holds (\<open>run_questions_records\<close>), but
  a record does not occupy one line: \<open>json.dumps\<close> is called with \<open>indent=2\<close>, so
  every record is spread over four lines (\<open>record_line_newlines\<close>). The run on the
  single entry with the question \<open>Who?\<close>, a failing generator and an empty search
  writes the four lines below.
\<close>

theorem output_record_lines:
  \<open>main_run ascii_ucd raising_gen no_search ()
      [JObj [(ustr ''input_field'', JStr (ustr ''Who?''))]] =
     (None,
      ustr ''{'' @ [10] @
      ustr ''  "id": "q_0",'' @ [10] @
      ustr ''  "output_field": "'' @ error_marker @ ustr ''"'' @ [10] @
      ustr ''}'' @ [10],
      ()) \<and>
   length (filter (\<lambda>c. c = 10)
     (fst (snd (main_run ascii_ucd raising_gen no_search ()
        [JObj [(ustr ''input_field'', JStr (ustr ''Who?''))]])))) = 4\<close>
proof -
  have 1: "answer_question ascii_ucd raising_gen no_search () (ustr ''Who?'') = (Inr error_marker, ())"
    by (simp add: answer_question_def decompose_def extract_question_with_llm_def
        extract_core_entities_def no_search_def aggregate_def extract_relevant_sentences_def
        generate_answer_def raising_gen_def ustr_def)
  have 2: "main_run ascii_ucd raising_gen no_search ()
      [JObj [(ustr ''input_field'', JStr (ustr ''Who?''))]] =
     (None,
      ustr ''{'' @ [10] @
      ustr ''  \"id\": \"q_0\",'' @ [10] @
      ustr ''  \"output_field\": \"'' @ error_marker @ ustr ''\"'' @ [10] @
      ustr ''}'' @ [10],
      ())"
    by (simp add: main_run_def 1 [unfolded ustr_def, simplified] json_eval digits_of_nat.simps
        error_marker_def ustr_def)
  show ?thesis unfolding 2 by (simp add: ustr_def error_marker_def)
qed

end
